theory Spec2Isabelle
  imports Complex_Main "HOL-Library.List_Lexorder" "HOL-Library.Multiset"
begin

section \<open>Column-name normalization\<close>

text \<open>
  Source: \<^verbatim>\<open>df.columns.astype(str).str.strip().str.lower().str.replace(' ', '_')\<close>
  (backend.py line 27, frontend.py line 55, app.py line 37).
  Strings are lists of characters with code points below 256. \<open>is_space\<close> is the
  set of characters that Python's \<open>str.strip()\<close> removes in that range, \<open>lower_char\<close>
  is Python's \<open>str.lower()\<close> on one such character. \<open>replace_space\<close> replaces the
  space character only, as the literal pattern \<open>' '\<close> does.
\<close>

definition is_space :: "char \<Rightarrow> bool" where
  "is_space c = (let n = (of_char c :: nat) in
     (9 \<le> n \<and> n \<le> 13) \<or> (28 \<le> n \<and> n \<le> 32) \<or> n = 133 \<or> n = 160)"

definition lower_char :: "char \<Rightarrow> char" where
  "lower_char c = (let n = (of_char c :: nat) in
     if (65 \<le> n \<and> n \<le> 90) \<or> (192 \<le> n \<and> n \<le> 222 \<and> n \<noteq> 215)
     then char_of (n + 32) else c)"

definition strip :: "string \<Rightarrow> string" where
  "strip s = rev (dropWhile is_space (rev (dropWhile is_space s)))"

definition lower :: "string \<Rightarrow> string" where
  "lower s = map lower_char s"

definition replace_space :: "string \<Rightarrow> string" where
  "replace_space s = map (\<lambda>c. if c = CHR '' '' then CHR ''_'' else c) s"

definition normalize :: "string \<Rightarrow> string" where
  "normalize s = replace_space (lower (strip s))"

text \<open>
  The reading of "two raw names differ only in letter case or whitespace" used to test
  the specification: the names agree once whitespace is deleted and case is folded.
\<close>

definition same_up_to_case_ws :: "string \<Rightarrow> string \<Rightarrow> bool" where
  "same_up_to_case_ws a b =
     (lower (filter (\<lambda>c. \<not> is_space c) a) = lower (filter (\<lambda>c. \<not> is_space c) b))"

section \<open>Data frames\<close>

text \<open>
  The tables of the program are pandas data frames. A frame is modelled by its column
  labels with their dtypes and its rows; a row maps labels to cells, in column order.
  A cell is a missing number \<open>NaN\<close>, a missing date \<open>NaT\<close>, a whole number, a text or a
  calendar date (year, month, day). Counts are exact integers: rounding of large
  floating-point sums is not part of the model.
  A cell is looked up by its label. Where a statement depends on the labels of a frame
  being pairwise distinct, it says so in a hypothesis; the places where the library
  rejects a repeated label are written out in \<open>convert_date\<close>, \<open>concat_frames\<close> and
  \<open>groupby_sum\<close>.
\<close>

datatype dtype = Number | Datetime | Object

datatype cell = NaN | NaT | Num int | Txt string | Date int int int

datatype error = ReadError | KeyError string | ValueError | InvalidIndexError | NotNumeric | AttributeError

type_synonym row = "(string \<times> cell) list"

record frame =
  columns :: "(string \<times> dtype) list"
  rows :: "row list"

definition isna :: "cell \<Rightarrow> bool" where
  "isna c = (c = NaN \<or> c = NaT)"

definition get :: "row \<Rightarrow> string \<Rightarrow> cell" where
  "get r c = (case map_of r c of Some v \<Rightarrow> v | None \<Rightarrow> NaN)"

definition labels :: "frame \<Rightarrow> string list" where
  "labels df = map fst (columns df)"

definition empty :: "frame \<Rightarrow> bool" where
  "empty df = (columns df = [] \<or> rows df = [])"

definition DataFrame :: frame where
  "DataFrame = \<lparr>columns = [], rows = []\<rparr>"

section \<open>Date parsing\<close>

text \<open>
  Source: \<^verbatim>\<open>pd.to_datetime(df[date_col], format='%d-%m-%Y', errors='coerce')\<close>
  (backend.py line 32). The format is matched against the whole text: a day of one or
  two digits (or a space and a digit), a month of one or two digits, a year of four
  digits, separated by hyphens, and the three numbers must name a calendar date. With
  \<open>errors='coerce'\<close> every cell that does not parse becomes \<open>NaT\<close>. The limits of the
  library's timestamp range are not modelled.
\<close>

definition is_digit :: "char \<Rightarrow> bool" where
  "is_digit c = (let n = (of_char c :: nat) in 48 \<le> n \<and> n \<le> 57)"

definition digit_val :: "char \<Rightarrow> int" where
  "digit_val c = int (of_char c) - 48"

fun split_on :: "char \<Rightarrow> string \<Rightarrow> string list" where
  "split_on d [] = [[]]"
| "split_on d (c # cs) =
     (if c = d then [] # split_on d cs
      else (case split_on d cs of [] \<Rightarrow> [[c]] | w # ws \<Rightarrow> (c # w) # ws))"

definition field_month :: "string \<Rightarrow> int option" where
  "field_month s =
     (case s of
        [a] \<Rightarrow> if is_digit a then Some (digit_val a) else None
      | [a, b] \<Rightarrow>
          if is_digit a \<and> is_digit b then Some (10 * digit_val a + digit_val b) else None
      | _ \<Rightarrow> None)"

definition field_day :: "string \<Rightarrow> int option" where
  "field_day s =
     (case s of
        [a, b] \<Rightarrow>
          if a = CHR '' '' \<and> is_digit b then Some (digit_val b) else field_month s
      | _ \<Rightarrow> field_month s)"

definition field_year :: "string \<Rightarrow> int option" where
  "field_year s =
     (if length s = 4 \<and> list_all is_digit s
      then Some (foldl (\<lambda>acc c. 10 * acc + digit_val c) 0 s) else None)"

definition is_leap :: "int \<Rightarrow> bool" where
  "is_leap y = (y mod 4 = 0 \<and> (y mod 100 \<noteq> 0 \<or> y mod 400 = 0))"

definition days_in_month :: "int \<Rightarrow> int \<Rightarrow> int" where
  "days_in_month y m =
     (if m = 2 then (if is_leap y then 29 else 28)
      else if m = 4 \<or> m = 6 \<or> m = 9 \<or> m = 11 then 30 else 31)"

definition strptime :: "string \<Rightarrow> (int \<times> int \<times> int) option" where
  "strptime s =
     (case split_on (CHR ''-'') s of
        [ds, ms, ys] \<Rightarrow>
          (case (field_day ds, field_month ms, field_year ys) of
             (Some d, Some m, Some y) \<Rightarrow>
               if 1 \<le> m \<and> m \<le> 12 \<and> 1 \<le> d \<and> d \<le> days_in_month y m
               then Some (y, m, d) else None
           | _ \<Rightarrow> None)
      | _ \<Rightarrow> None)"


fun to_datetime :: "cell \<Rightarrow> cell" where
  "to_datetime (Txt s) = (case strptime s of Some (y, m, d) \<Rightarrow> Date y m d | None \<Rightarrow> NaT)"
| "to_datetime (Date y m d) = Date y m d"
| "to_datetime _ = NaT"

section \<open>Loading a folder\<close>

text \<open>
  Source: \<open>load_df_from_folder\<close> (backend.py lines 15 to 38). A file on disk is either
  one that \<open>pd.read_csv\<close> rejects or a parsed table. The loop body runs inside
  \<open>try\<close>: a file whose reading or cleaning raises is left out of \<open>df_list\<close>
  (\<open>collect\<close>). \<open>pd.concat\<close> runs outside the \<open>try\<close>; it takes the union of the labels
  in order of first appearance and fills the cells of absent columns with the missing
  marker. When a frame has a repeated label, the library cannot align the frames and
  raises \<open>InvalidIndexError\<close>, unless all frames have the same labels, in which case no
  alignment is needed and the frames are stacked as they are (\<open>same_labels_concat\<close>).
  \<open>glob_csv\<close> is the file search: the files directly in the folder, or, when there are
  none, those found by the recursive search.
\<close>

datatype csvfile = Corrupt | Table frame

fun read_csv :: "csvfile \<Rightarrow> error + frame" where
  "read_csv Corrupt = Inl ReadError"
| "read_csv (Table df) = Inr df"

definition rename_columns :: "frame \<Rightarrow> frame" where
  "rename_columns df =
     \<lparr>columns = map (\<lambda>(c, t). (normalize c, t)) (columns df),
      rows = map (map (\<lambda>(c, v). (normalize c, v))) (rows df)\<rparr>"

fun contains :: "string \<Rightarrow> string \<Rightarrow> bool" where
  "contains pat [] = (pat = [])"
| "contains pat (c # cs) = (take (length pat) (c # cs) = pat \<or> contains pat cs)"

definition date_col :: "frame \<Rightarrow> string option" where
  "date_col df = find (contains ''date'') (labels df)"

definition convert_date :: "string \<Rightarrow> frame \<Rightarrow> error + frame" where
  "convert_date c df =
     (if 1 < length (filter (\<lambda>l. l = c) (labels df)) then Inl ValueError
      else Inr \<lparr>columns = map (\<lambda>(l, t). if l = c then (l, Datetime) else (l, t)) (columns df),
                rows = map (map (\<lambda>(l, v). if l = c then (l, to_datetime v) else (l, v)))
                         (rows df)\<rparr>)"

definition load_file :: "csvfile \<Rightarrow> error + frame" where
  "load_file file =
     (case read_csv file of
        Inl e \<Rightarrow> Inl e
      | Inr df \<Rightarrow>
          (let df1 = rename_columns df in
           case date_col df1 of
             None \<Rightarrow> Inr df1
           | Some c \<Rightarrow> convert_date c df1))"

fun collect :: "csvfile list \<Rightarrow> frame list" where
  "collect [] = []"
| "collect (file # files) =
     (case load_file file of
        Inl e \<Rightarrow> collect files
      | Inr df \<Rightarrow> df # collect files)"

definition union_labels :: "frame list \<Rightarrow> string list" where
  "union_labels dfs = rev (remdups (rev (concat (map labels dfs))))"

definition concat_dtype :: "frame list \<Rightarrow> string \<Rightarrow> dtype" where
  "concat_dtype dfs c =
     (case remdups (concat (map (\<lambda>df. map snd (filter (\<lambda>(l, t). l = c) (columns df))) dfs)) of
        [t] \<Rightarrow> t
      | _ \<Rightarrow> Object)"

definition reindex :: "(string \<times> dtype) list \<Rightarrow> row \<Rightarrow> row" where
  "reindex cols r =
     map (\<lambda>(c, t). (c, case map_of r c of
                          Some v \<Rightarrow> v
                        | None \<Rightarrow> if t = Datetime then NaT else NaN)) cols"

definition same_labels_concat :: "frame list \<Rightarrow> frame" where
  "same_labels_concat dfs =
     \<lparr>columns = map (\<lambda>j. (labels (hd dfs) ! j,
                          case remdups (map (\<lambda>df. snd (columns df ! j)) dfs) of
                            [t] \<Rightarrow> t
                          | _ \<Rightarrow> Object))
                  [0..<length (columns (hd dfs))],
      rows = concat (map rows dfs)\<rparr>"

definition concat_frames :: "frame list \<Rightarrow> error + frame" where
  "concat_frames dfs =
     (if list_ex (\<lambda>df. \<not> distinct (labels df)) dfs
      then (if list_ex (\<lambda>df. labels df \<noteq> labels (hd dfs)) dfs then Inl InvalidIndexError
            else Inr (same_labels_concat dfs))
      else (let cols = map (\<lambda>c. (c, concat_dtype dfs c)) (union_labels dfs)
            in Inr \<lparr>columns = cols,
                     rows = map (reindex cols) (concat (map rows dfs))\<rparr>))"

record folder =
  direct :: "csvfile list"
  nested :: "csvfile list"

definition glob_csv :: "folder \<Rightarrow> csvfile list" where
  "glob_csv p = (if direct p \<noteq> [] then direct p else nested p)"

definition load_df_from_folder :: "folder \<Rightarrow> error + frame" where
  "load_df_from_folder p =
     (let df_list = collect (glob_csv p)
      in if df_list \<noteq> [] then concat_frames df_list else Inr DataFrame)"

section \<open>Filling numeric columns\<close>

text \<open>
  Source: backend.py lines 46 to 50,
  \<^verbatim>\<open>numeric_cols = df.select_dtypes(include=['number']).columns\<close>,
  \<^verbatim>\<open>df[numeric_cols] = df[numeric_cols].fillna(0)\<close>, skipped for an empty frame.
\<close>

definition dtype_of :: "frame \<Rightarrow> string \<Rightarrow> dtype option" where
  "dtype_of df c = map_of (columns df) c"


section \<open>Grouped sums\<close>

text \<open>
  Source: \<^verbatim>\<open>df.groupby(keys)[values].sum().reset_index()\<close> with the library defaults
  \<open>dropna=True\<close> and \<open>sort=True\<close>: rows with a missing cell in a key column are left
  out, the remaining rows are grouped by equal key cells, the groups come in increasing
  key order (\<open>enc_cell\<close> encodes a cell so that texts compare by code points and dates
  by calendar order), and the sum of a group skips missing cells. Sums are modelled for
  numeric columns; for a column of another dtype the outcome depends on the cell
  contents and the model answers \<open>NotNumeric\<close>. An absent column is a \<open>KeyError\<close>, and
  a key label that names more than one column is a \<open>ValueError\<close> (the grouper is not
  one-dimensional). A value label is taken to name one column.
  \<open>add_columns\<close> is the assignment \<^verbatim>\<open>df[name] = df[a] + df[b] + ...\<close>: a missing
  operand makes the sum missing.
\<close>

definition key_of :: "string list \<Rightarrow> row \<Rightarrow> cell list" where
  "key_of ks r = map (get r) ks"

fun enc_cell :: "cell \<Rightarrow> int list" where
  "enc_cell NaN = [0]"
| "enc_cell NaT = [1]"
| "enc_cell (Num n) = [2, n]"
| "enc_cell (Txt s) = 3 # map (\<lambda>c. int (of_char c)) s"
| "enc_cell (Date y m d) = [4, y, m, d]"

definition dropna :: "string list \<Rightarrow> row list \<Rightarrow> row list" where
  "dropna ks rs = filter (\<lambda>r. \<not> list_ex isna (key_of ks r)) rs"

definition group_keys :: "string list \<Rightarrow> row list \<Rightarrow> cell list list" where
  "group_keys ks rs = sort_key (map enc_cell) (remdups (map (key_of ks) (dropna ks rs)))"

fun num_of :: "cell \<Rightarrow> int" where
  "num_of (Num n) = n"
| "num_of _ = 0"

definition group_sum :: "string list \<Rightarrow> row list \<Rightarrow> cell list \<Rightarrow> string \<Rightarrow> int" where
  "group_sum ks rs k v =
     sum_list (map (\<lambda>r. num_of (get r v)) (filter (\<lambda>r. key_of ks r = k) (dropna ks rs)))"

definition groupby_sum :: "string list \<Rightarrow> string list \<Rightarrow> frame \<Rightarrow> error + frame" where
  "groupby_sum ks vs df =
     (case filter (\<lambda>c. c \<notin> set (labels df)) ks of
        c # _ \<Rightarrow> Inl (KeyError c)
      | [] \<Rightarrow>
          if list_ex (\<lambda>k. 1 < count_list (labels df) k) ks then Inl ValueError
          else (case filter (\<lambda>c. c \<notin> set (labels df)) vs of
                  c # _ \<Rightarrow> Inl (KeyError c)
                | [] \<Rightarrow>
                    if list_ex (\<lambda>v. dtype_of df v \<noteq> Some Number) vs then Inl NotNumeric
                    else Inr \<lparr>columns = map (\<lambda>k. (k, the (dtype_of df k))) ks
                                        @ map (\<lambda>v. (v, Number)) vs,
                              rows = map (\<lambda>k. zip ks k
                                            @ map (\<lambda>v. (v, Num (group_sum ks (rows df) k v))) vs)
                                       (group_keys ks (rows df))\<rparr>))"

definition col_sum :: "frame \<Rightarrow> string \<Rightarrow> error + int" where
  "col_sum df c =
     (if c \<notin> set (labels df) then Inl (KeyError c)
      else if dtype_of df c \<noteq> Some Number then Inl NotNumeric
      else Inr (sum_list (map (\<lambda>r. num_of (get r c)) (rows df))))"

definition bind :: "error + 'a \<Rightarrow> ('a \<Rightarrow> error + 'b) \<Rightarrow> error + 'b" where
  "bind m f = (case m of Inl e \<Rightarrow> Inl e | Inr x \<Rightarrow> f x)"

fun add_cell :: "cell \<Rightarrow> cell \<Rightarrow> cell" where
  "add_cell (Num a) (Num b) = Num (a + b)"
| "add_cell _ _ = NaN"

fun upd :: "string \<Rightarrow> cell \<Rightarrow> row \<Rightarrow> row" where
  "upd c v [] = [(c, v)]"
| "upd c v ((c', v') # r) = (if c' = c then (c, v) # r else (c', v') # upd c v r)"

fun upd_col :: "string \<Rightarrow> dtype \<Rightarrow> (string \<times> dtype) list \<Rightarrow> (string \<times> dtype) list" where
  "upd_col c t [] = [(c, t)]"
| "upd_col c t ((c', t') # cols) = (if c' = c then (c, t) # cols else (c', t') # upd_col c t cols)"

definition add_columns :: "string \<Rightarrow> string list \<Rightarrow> frame \<Rightarrow> error + frame" where
  "add_columns name parts df =
     (case filter (\<lambda>c. c \<notin> set (labels df)) parts of
        c # _ \<Rightarrow> Inl (KeyError c)
      | [] \<Rightarrow>
          if list_ex (\<lambda>c. dtype_of df c \<noteq> Some Number) parts then Inl NotNumeric
          else Inr \<lparr>columns = upd_col name Number (columns df),
                    rows = map (\<lambda>r. upd name (foldl add_cell (get r (hd parts))
                                                   (map (get r) (tl parts))) r) (rows df)\<rparr>)"

section \<open>Queries\<close>

text \<open>
  Source: \<open>get_stats\<close>, \<open>get_state_summary\<close>, \<open>get_trends\<close> and
  \<open>get_district_rankings\<close> (backend.py lines 58 to 118). The global frames are
  parameters. \<open>get_state_summary\<close> returns a dictionary with an entry for each
  non-empty data set. In \<open>get_district_rankings\<close> the call
  \<^verbatim>\<open>sort_values('total', ascending=False)\<close> uses the library's default sorting
  routine (\<open>kind='quicksort'\<close>), which the library documents as not stable; the routine
  is the parameter \<open>sort_values\<close> (\<open>district_totals\<close> is the frame it is applied to), and \<open>sort_contract\<close> is what the library promises
  of it: the rows are rearranged into non-increasing order of \<open>total\<close>.
\<close>

record stats =
  enrolment_total_records :: int
  age_0_5_total :: int
  age_5_17_total :: int
  age_18_greater_total :: int
  demographic_total_records :: int
  demo_age_5_17_total :: int
  biometric_total_records :: int
  bio_age_5_17_total :: int

definition guarded_sum :: "frame \<Rightarrow> string \<Rightarrow> error + int" where
  "guarded_sum df c = (if \<not> empty df then col_sum df c else Inr 0)"

definition get_stats :: "frame \<Rightarrow> frame \<Rightarrow> frame \<Rightarrow> error + stats" where
  "get_stats df_enrolment df_demographic df_biometric =
     bind (guarded_sum df_enrolment ''age_0_5'') (\<lambda>a.
     bind (guarded_sum df_enrolment ''age_5_17'') (\<lambda>b.
     bind (guarded_sum df_enrolment ''age_18_greater'') (\<lambda>c.
     bind (guarded_sum df_demographic ''demo_age_5_17'') (\<lambda>d.
     bind (guarded_sum df_biometric ''bio_age_5_17'') (\<lambda>e.
       Inr \<lparr>enrolment_total_records = int (length (rows df_enrolment)),
            age_0_5_total = a, age_5_17_total = b, age_18_greater_total = c,
            demographic_total_records = int (length (rows df_demographic)),
            demo_age_5_17_total = d,
            biometric_total_records = int (length (rows df_biometric)),
            bio_age_5_17_total = e\<rparr>)))))"

record summary =
  enrolment :: "row list option"
  biometric :: "row list option"

definition grouped_with_total ::
    "string list \<Rightarrow> string list \<Rightarrow> string \<Rightarrow> frame \<Rightarrow> error + row list" where
  "grouped_with_total ks vs name df =
     bind (groupby_sum ks vs df) (\<lambda>grp.
     bind (add_columns name vs grp) (\<lambda>grp'. Inr (rows grp')))"

definition get_state_summary :: "frame \<Rightarrow> frame \<Rightarrow> error + summary" where
  "get_state_summary df_enrolment df_biometric =
     bind (if \<not> empty df_enrolment
           then bind (grouped_with_total [''state''] [''age_0_5'', ''age_5_17'', ''age_18_greater'']
                        ''total_enrolment'' df_enrolment) (\<lambda>rs. Inr (Some rs))
           else Inr None) (\<lambda>enr.
     bind (if \<not> empty df_biometric
           then bind (grouped_with_total [''state''] [''bio_age_5_17'', ''bio_age_17_'']
                        ''total_biometric'' df_biometric) (\<lambda>rs. Inr (Some rs))
           else Inr None) (\<lambda>bio.
       Inr \<lparr>enrolment = enr, biometric = bio\<rparr>))"

definition digit_char :: "int \<Rightarrow> char" where
  "digit_char n = char_of (48 + nat (n mod 10))"

fun strftime :: "cell \<Rightarrow> cell" where
  "strftime (Date y m d) =
     Txt ([digit_char (y div 1000), digit_char (y div 100), digit_char (y div 10), digit_char y]
          @ ''-'' @ [digit_char (m div 10), digit_char m]
          @ ''-'' @ [digit_char (d div 10), digit_char d])"
| "strftime _ = NaN"

definition get_trends :: "frame \<Rightarrow> error + row list" where
  "get_trends df_enrolment =
     (if empty df_enrolment then Inr []
      else bind (groupby_sum [''date''] [''age_0_5'', ''age_5_17'', ''age_18_greater''] df_enrolment)
             (\<lambda>trend.
                if dtype_of trend ''date'' \<noteq> Some Datetime then Inl AttributeError
                else Inr (map (\<lambda>r. upd ''date'' (strftime (get r ''date'')) r) (rows trend))))"

definition select_state :: "string option \<Rightarrow> frame \<Rightarrow> error + frame" where
  "select_state state df =
     (case state of
        None \<Rightarrow> Inr df
      | Some s \<Rightarrow>
          if s = [] then Inr df
          else if ''state'' \<notin> set (labels df) then Inl (KeyError ''state'')
          else Inr (df\<lparr>rows := filter (\<lambda>r. get r ''state'' = Txt s) (rows df)\<rparr>))"

definition district_totals :: "string option \<Rightarrow> frame \<Rightarrow> error + frame" where
  "district_totals state df_enrolment =
     bind (select_state state df_enrolment) (\<lambda>df.
     bind (add_columns ''total'' [''age_0_5'', ''age_5_17'', ''age_18_greater''] df) (\<lambda>df'.
       groupby_sum [''state'', ''district''] [''total''] df'))"

definition get_district_rankings ::
    "(row list \<Rightarrow> row list) \<Rightarrow> string option \<Rightarrow> frame \<Rightarrow> error + row list" where
  "get_district_rankings sort_values state df_enrolment =
     (if empty df_enrolment then Inr []
      else bind (district_totals state df_enrolment) (\<lambda>grp.
             Inr (take 20 (sort_values (rows grp)))))"

definition total_of :: "row \<Rightarrow> int" where
  "total_of r = num_of (get r ''total'')"

definition sort_contract :: "(row list \<Rightarrow> row list) \<Rightarrow> bool" where
  "sort_contract sort_values =
     (\<forall>rs. mset (sort_values rs) = mset rs
           \<and> sorted_wrt (\<lambda>a b. total_of b \<le> total_of a) (sort_values rs))"

section \<open>Schema and example data\<close>

text \<open>
  An enrolment data set has pairwise distinct labels, among them the columns the
  queries read, with numeric age columns.
  \<open>stable_desc\<close> is the sort with \<open>kind='stable'\<close>: rows of equal total keep their order.
  \<open>reverse_ties\<close> also sorts into non-increasing order of total, and puts rows of equal
  total in the opposite order.
\<close>

definition enrolment_schema :: "frame \<Rightarrow> bool" where
  "enrolment_schema df =
     (distinct (labels df)
      \<and> {''state'', ''district'', ''age_0_5'', ''age_5_17'', ''age_18_greater''} \<subseteq> set (labels df)
      \<and> dtype_of df ''age_0_5'' = Some Number
      \<and> dtype_of df ''age_5_17'' = Some Number
      \<and> dtype_of df ''age_18_greater'' = Some Number)"

definition stable_desc :: "row list \<Rightarrow> row list" where
  "stable_desc rs = rev (sort_key total_of (rev rs))"


definition enrol_row :: "cell \<Rightarrow> cell \<Rightarrow> cell \<Rightarrow> int \<Rightarrow> int \<Rightarrow> int \<Rightarrow> row" where
  "enrol_row dt st di a b c =
     [(''date'', dt), (''state'', st), (''district'', di),
      (''age_0_5'', Num a), (''age_5_17'', Num b), (''age_18_greater'', Num c)]"

definition enrol_columns :: "(string \<times> dtype) list" where
  "enrol_columns =
     [(''date'', Datetime), (''state'', Object), (''district'', Object),
      (''age_0_5'', Number), (''age_5_17'', Number), (''age_18_greater'', Number)]"

definition two_districts :: frame where
  "two_districts =
     \<lparr>columns = enrol_columns,
      rows = [enrol_row (Date 2024 3 1) (Txt ''X'') (Txt ''A'') 10 5 20,
              enrol_row (Date 2024 3 1) (Txt ''X'') (Txt ''B'') 3 2 1]\<rparr>"

definition missing_keys :: frame where
  "missing_keys =
     \<lparr>columns = enrol_columns,
      rows = [enrol_row NaT NaN (Txt ''C'') 5 0 0,
              enrol_row (Date 2024 3 1) (Txt ''X'') (Txt ''A'') 3 2 1]\<rparr>"


section \<open>Well-formed files\<close>

text \<open>
  A parsed file is well formed when the clean names of its columns are pairwise
  distinct, every row has one cell for each column, in column order, and a column of
  numeric dtype holds numbers and missing cells only (the library gives a column with a
  value that is not a number the dtype object). \<open>clean_row\<close> and \<open>clean_columns\<close>
  describe the effect of the cleaning steps on one row and on the column list when the
  date column is \<open>dc\<close>; \<open>loaded\<close> is the contribution of one file to \<open>df_list\<close> and
  \<open>file_rows\<close> its rows. \<open>typed\<close> is the condition of well-formedness on a cleaned
  frame. The example folders hold the files named in them.
\<close>

definition clean_row :: "string option \<Rightarrow> row \<Rightarrow> row" where
  "clean_row dc r =
     map (\<lambda>(c, v). (normalize c, if dc = Some (normalize c) then to_datetime v else v)) r"

definition clean_columns :: "string option \<Rightarrow> (string \<times> dtype) list \<Rightarrow> (string \<times> dtype) list" where
  "clean_columns dc cols =
     map (\<lambda>(c, t). (normalize c, if dc = Some (normalize c) then Datetime else t)) cols"

fun is_number :: "cell \<Rightarrow> bool" where
  "is_number (Num n) = True"
| "is_number _ = False"

definition well_formed :: "frame \<Rightarrow> bool" where
  "well_formed t =
     (distinct (map normalize (labels t))
      \<and> (\<forall>r\<in>set (rows t). map fst r = labels t)
      \<and> (\<forall>r\<in>set (rows t). \<forall>(c, v)\<in>set r.
            (c, Number) \<in> set (columns t) \<longrightarrow> is_number v \<or> v = NaN))"

fun loaded :: "csvfile \<Rightarrow> frame list" where
  "loaded file = (case load_file file of Inl e \<Rightarrow> [] | Inr df \<Rightarrow> [df])"

definition raw_dates :: frame where
  "raw_dates =
     \<lparr>columns = [('' Date'', Object), (''State'', Object), (''Age 0 5'', Number)],
      rows = [[('' Date'', Txt ''31-02-2024''), (''State'', Txt ''X''), (''Age 0 5'', NaN)],
              [('' Date'', Txt ''01-03-2024''), (''State'', Txt ''Y''), (''Age 0 5'', Num 3)]]\<rparr>"

definition two_date_columns :: frame where
  "two_date_columns =
     \<lparr>columns = [(''Date'', Object), (''End Date'', Object)],
      rows = [[(''Date'', Txt ''31-02-2024''), (''End Date'', Txt ''31-02-2024'')]]\<rparr>"

fun distinct_clean_names :: "csvfile \<Rightarrow> bool" where
  "distinct_clean_names Corrupt = True"
| "distinct_clean_names (Table t) = distinct (map normalize (labels t))"

fun admissible :: "csvfile \<Rightarrow> bool" where
  "admissible Corrupt = True"
| "admissible (Table t) = well_formed t"

fun row_count :: "csvfile \<Rightarrow> nat" where
  "row_count Corrupt = 0"
| "row_count (Table t) = length (rows t)"

definition file_rows :: "csvfile \<Rightarrow> row list" where
  "file_rows file = concat (map rows (loaded file))"

definition plain_counts :: frame where
  "plain_counts =
     \<lparr>columns = [(''state'', Object), (''age_5_17'', Number)],
      rows = [[(''state'', Txt ''Z''), (''age_5_17'', Num 7)]]\<rparr>"

definition mixed_folder :: folder where
  "mixed_folder =
     \<lparr>direct = [Table raw_dates, Corrupt, Table two_date_columns, Table plain_counts],
      nested = []\<rparr>"



definition colliding_names :: frame where
  "colliding_names =
     \<lparr>columns = [(''State'', Object), (''state'', Object)],
      rows = [[(''State'', Txt ''X''), (''state'', Txt ''x'')]]\<rparr>"

definition colliding_folder :: folder where
  "colliding_folder = \<lparr>direct = [Table colliding_names, Table plain_counts], nested = []\<rparr>"

section \<open>Coverage by state\<close>

text \<open>
  Source: frontend.py lines 79 to 83 (the computed total columns, skipped for an empty
  frame) and lines 185 to 192 (the page "Biometric Performance"): the two data sets are
  summed by state, joined on the state (\<open>how='inner'\<close>), and each joined row gets
  \<^verbatim>\<open>pending_biometrics = total_enrolment - total_biometric\<close> and
  \<^verbatim>\<open>coverage_pct = (total_biometric / total_enrolment) * 100\<close>.
  The division is the library's element-wise true division, which does not raise: a
  quotient with a non-zero divisor is modelled by the exact rational (rounding is not
  modelled), a non-zero number divided by zero is an infinity and zero divided by zero
  is not-a-number. The page shows nothing when either data set is empty (\<open>None\<close>).
\<close>

datatype fval = Finite rat | PosInf | NegInf | NotANumber

definition true_divide :: "int \<Rightarrow> int \<Rightarrow> fval" where
  "true_divide a b =
     (if b \<noteq> 0 then Finite (of_int a / of_int b)
      else if 0 < a then PosInf
      else if a < 0 then NegInf
      else NotANumber)"

fun fmul :: "fval \<Rightarrow> rat \<Rightarrow> fval" where
  "fmul (Finite q) k = Finite (q * k)"
| "fmul PosInf k = (if 0 < k then PosInf else if k < 0 then NegInf else NotANumber)"
| "fmul NegInf k = (if 0 < k then NegInf else if k < 0 then PosInf else NotANumber)"
| "fmul NotANumber k = NotANumber"

record coverage_row =
  cov_state :: cell
  cov_total_enrolment :: int
  cov_total_biometric :: int
  cov_pending_biometrics :: int
  cov_coverage_pct :: fval

definition computed_field :: "string \<Rightarrow> string list \<Rightarrow> frame \<Rightarrow> error + frame" where
  "computed_field name parts df = (if \<not> empty df then add_columns name parts df else Inr df)"

definition merge_inner :: "row list \<Rightarrow> row list \<Rightarrow> (cell \<times> int \<times> int) list" where
  "merge_inner enr_agg bio_agg =
     concat (map (\<lambda>l. map (\<lambda>r. (get l ''state'', num_of (get l ''total_enrolment''),
                                    num_of (get r ''total_biometric'')))
                         (filter (\<lambda>r. get r ''state'' = get l ''state'') bio_agg)) enr_agg)"

definition coverage :: "cell \<times> int \<times> int \<Rightarrow> coverage_row" where
  "coverage m =
     (case m of (s, e, b) \<Rightarrow>
        \<lparr>cov_state = s, cov_total_enrolment = e, cov_total_biometric = b,
         cov_pending_biometrics = e - b,
         cov_coverage_pct = fmul (true_divide b e) 100\<rparr>)"

definition biometric_performance :: "frame \<Rightarrow> frame \<Rightarrow> error + coverage_row list option" where
  "biometric_performance df_enrolment0 df_biometric0 =
     bind (computed_field ''total_enrolment'' [''age_0_5'', ''age_5_17'', ''age_18_greater'']
             df_enrolment0) (\<lambda>df_enrolment.
     bind (computed_field ''total_biometric'' [''bio_age_5_17'', ''bio_age_17_'']
             df_biometric0) (\<lambda>df_biometric.
       if \<not> empty df_biometric \<and> \<not> empty df_enrolment
       then bind (groupby_sum [''state''] [''total_biometric''] df_biometric) (\<lambda>bio_agg.
            bind (groupby_sum [''state''] [''total_enrolment''] df_enrolment) (\<lambda>enr_agg.
              Inr (Some (map coverage (merge_inner (rows enr_agg) (rows bio_agg))))))
       else Inr None))"

definition no_enrolments :: frame where
  "no_enrolments =
     \<lparr>columns = enrol_columns,
      rows = [enrol_row (Date 2024 3 1) (Txt ''X'') (Txt ''A'') 0 0 0,
              enrol_row (Date 2024 3 1) (Txt ''Y'') (Txt ''B'') 60 30 10]\<rparr>"

definition some_biometrics :: frame where
  "some_biometrics =
     \<lparr>columns = [(''state'', Object), (''bio_age_5_17'', Number), (''bio_age_17_'', Number)],
      rows = [[(''state'', Txt ''X''), (''bio_age_5_17'', Num 5), (''bio_age_17_'', Num 0)],
              [(''state'', Txt ''Y''), (''bio_age_5_17'', Num 50), (''bio_age_17_'', Num 30)]]\<rparr>"

section \<open>Lemmas on normalization\<close>

lemma of_char_lower: "(of_char (lower_char c) :: nat) =
   (let n = of_char c in if (65 \<le> n \<and> n \<le> 90) \<or> (192 \<le> n \<and> n \<le> 222 \<and> n \<noteq> 215) then n + 32 else n)"
  by (auto simp: lower_char_def Let_def)

lemma lower_char_idem: "lower_char (lower_char c) = lower_char c"
proof -
  have "(of_char (lower_char (lower_char c)) :: nat) = of_char (lower_char c)"
    by (simp add: of_char_lower [of "lower_char c"] Let_def) (simp add: of_char_lower Let_def)
  then show ?thesis by simp
qed

lemma is_space_lower_char: "is_space (lower_char c) = is_space c"
  unfolding is_space_def by (auto simp: of_char_lower Let_def)


lemma is_space_replace: "is_space (if c = CHR '' '' then CHR ''_'' else c) \<Longrightarrow> is_space c"
  by (auto simp: is_space_def split: if_splits)

lemma dropWhile_id: "xs = [] \<or> \<not> P (hd xs) \<Longrightarrow> dropWhile P xs = xs"
  by (cases xs) auto

lemma strip_noop:
  assumes "s = [] \<or> (\<not> is_space (hd s) \<and> \<not> is_space (last s))"
  shows "strip s = s"
proof -
  have 1: "dropWhile is_space s = s" using assms by (intro dropWhile_id) auto
  have "rev s = [] \<or> \<not> is_space (hd (rev s))" using assms by (cases "s = []") (auto simp: hd_rev)
  then have 2: "dropWhile is_space (rev s) = rev s" by (rule dropWhile_id)
  show ?thesis by (simp add: strip_def 1 2)
qed

lemma strip_ends: "strip s = [] \<or> (\<not> is_space (hd (strip s)) \<and> \<not> is_space (last (strip s)))"
proof (cases "strip s = []")
  case False
  define d where "d = dropWhile is_space s"
  define t where "t = dropWhile is_space (rev d)"
  have st: "strip s = rev t" by (simp add: strip_def t_def d_def)
  have t: "t \<noteq> []" using False st by simp
  then have h: "\<not> is_space (hd t)" unfolding t_def by (rule hd_dropWhile)
  have d: "d \<noteq> []" using t unfolding t_def by (cases d) auto
  have "rev d = takeWhile is_space (rev d) @ t" by (simp add: t_def)
  then have "last (rev d) = last t" using t by (metis last_appendR)
  then have "last t = hd d" using d by (simp add: last_rev)
  moreover have "\<not> is_space (hd d)" using d unfolding d_def by (rule hd_dropWhile)
  ultimately have l: "\<not> is_space (last t)" by simp
  show ?thesis using h l t by (simp add: st hd_rev last_rev)
qed simp

lemma strip_idem: "strip (strip s) = strip s"
  by (rule strip_noop) (rule strip_ends)

lemma strip_lower: "strip (lower s) = lower (strip s)"
  by (simp add: strip_def lower_def dropWhile_map rev_map comp_def is_space_lower_char)

lemma dropWhile_pad: "list_all P p \<Longrightarrow> dropWhile P (p @ x) = dropWhile P x"
  by (induction p) auto

lemma strip_pad:
  assumes "list_all is_space p" "list_all is_space q"
  shows "strip (p @ x @ q) = strip x"
proof -
  have a: "dropWhile is_space (p @ x @ q) = dropWhile is_space (x @ q)"
    using assms(1) by (rule dropWhile_pad)
  have q: "list_all is_space (rev q)" using assms(2) by (simp add: list_all_iff)
  show ?thesis
  proof (cases "list_all is_space x")
    case True
    then have "list_all is_space (x @ q)" using assms(2) by simp
    then have 1: "dropWhile is_space (x @ q) = []" by (simp add: list_all_iff)
    have 2: "dropWhile is_space x = []" using True by (simp add: list_all_iff)
    show ?thesis by (simp add: strip_def a 1 2)
  next
    case False
    then have "dropWhile is_space (x @ q) = dropWhile is_space x @ q"
      by (auto simp: list_all_iff dropWhile_append1)
    then show ?thesis by (simp add: strip_def a dropWhile_pad [OF q])
  qed
qed

lemma replace_space_noop: "CHR '' '' \<notin> set s \<Longrightarrow> replace_space s = s"
  by (induction s) (auto simp: replace_space_def)

lemma no_space_replace: "CHR '' '' \<notin> set (replace_space s)"
  by (auto simp: replace_space_def)

lemma lower_idem: "lower (lower s) = lower s"
  by (simp add: lower_def lower_char_idem)

lemma lower_char_space: "(lower_char c = CHR '' '') = (c = CHR '' '')"
proof -
  have "((of_char (lower_char c) :: nat) = 32) = ((of_char c :: nat) = 32)"
    by (auto simp: of_char_lower Let_def)
  moreover have "(of_char (CHR '' '') :: nat) = 32" by simp
  ultimately show ?thesis by (metis of_char_eq_iff)
qed

lemma lower_char_underscore: "lower_char (CHR ''_'') = CHR ''_''"
  by (simp add: lower_char_def)

lemma lower_replace: "lower (replace_space s) = replace_space (lower s)"
  by (induction s) (auto simp: lower_def replace_space_def lower_char_space lower_char_underscore)

lemma replace_space_idem: "replace_space (replace_space s) = replace_space s"
  by (rule replace_space_noop) (rule no_space_replace)

lemma strip_normalize: "strip (normalize s) = normalize s"
proof (rule strip_noop, cases "strip s = []")
  case True
  then show "normalize s = [] \<or> \<not> is_space (hd (normalize s)) \<and> \<not> is_space (last (normalize s))"
    by (simp add: normalize_def lower_def replace_space_def)
next
  case False
  let ?g = "\<lambda>c. if c = CHR '' '' then CHR ''_'' else lower_char c"
  have n: "normalize s = map ?g (strip s)"
    by (simp add: normalize_def lower_def replace_space_def lower_char_space)
  have g: "\<not> is_space (?g c)" if "\<not> is_space c" for c
    using that by (simp add: is_space_lower_char) (simp add: is_space_def)
  from False strip_ends [of s]
  have e: "\<not> is_space (hd (strip s))" "\<not> is_space (last (strip s))" by auto
  have "hd (normalize s) = ?g (hd (strip s))" "last (normalize s) = ?g (last (strip s))"
    using False by (simp_all add: n hd_map last_map)
  then show "normalize s = [] \<or> \<not> is_space (hd (normalize s)) \<and> \<not> is_space (last (normalize s))"
    using g e by metis
qed

lemma normalize_idem: "normalize (normalize s) = normalize s"
proof -
  have "normalize (normalize s) = replace_space (lower (normalize s))"
    by (simp add: normalize_def [of "normalize s"] strip_normalize)
  also have "\<dots> = replace_space (replace_space (lower (lower (strip s))))"
    by (simp add: normalize_def lower_replace)
  also have "\<dots> = normalize s"
    by (simp add: replace_space_idem lower_idem normalize_def)
  finally show ?thesis .
qed

lemma normalize_pad:
  assumes "list_all is_space p1" "list_all is_space q1" "list_all is_space p2" "list_all is_space q2"
    and "lower x = lower y"
  shows "normalize (p1 @ x @ q1) = normalize (p2 @ y @ q2)"
proof -
  have "lower (strip x) = lower (strip y)" using assms(5) by (metis strip_lower)
  then show ?thesis by (simp add: normalize_def strip_pad assms)
qed

section \<open>Lemmas on the queries\<close>

lemma bind_Inr [simp]: "bind (Inr x) f = f x" by (simp add: bind_def)
lemma bind_Inl [simp]: "bind (Inl e) f = Inl e" by (simp add: bind_def)

lemma map_fst_upd_col:
  "map fst (upd_col c t cols) = (if c \<in> fst ` set cols then map fst cols else map fst cols @ [c])"
  by (induction cols) (auto simp: rev_image_eqI)

lemma labels_upd_col: "set (map fst (upd_col c t cols)) = insert c (set (map fst cols))"
  by (auto simp: map_fst_upd_col)

lemma map_of_upd_col: "map_of (upd_col c t cols) c = Some t"
  by (induction cols) auto

lemma select_state_ok:
  assumes "''state'' \<in> set (labels df)"
  shows "\<exists>df'. select_state state df = Inr df' \<and> columns df' = columns df
          \<and> set (rows df') \<subseteq> set (rows df)"
  using assms by (auto simp: select_state_def labels_def split: option.splits)

lemma add_columns_ok:
  assumes "set parts \<subseteq> set (labels df)" "\<forall>c\<in>set parts. dtype_of df c = Some Number"
  shows "add_columns name parts df =
           Inr \<lparr>columns = upd_col name Number (columns df),
                rows = map (\<lambda>r. upd name (foldl add_cell (get r (hd parts))
                                                   (map (get r) (tl parts))) r) (rows df)\<rparr>"
proof -
  have 1: "filter (\<lambda>c. c \<notin> set (labels df)) parts = []" using assms(1) by (auto simp: filter_empty_conv)
  have 2: "\<not> list_ex (\<lambda>c. dtype_of df c \<noteq> Some Number) parts" using assms(2) by (simp add: list_ex_iff)
  show ?thesis by (simp add: add_columns_def 1 2)
qed

lemma count_list_distinct: "distinct xs \<Longrightarrow> count_list xs x \<le> 1"
  by (induction xs) auto

lemma groupby_sum_ok:
  assumes "distinct (labels df)" "set (ks @ vs) \<subseteq> set (labels df)"
    and "\<forall>c\<in>set vs. dtype_of df c = Some Number"
  shows "groupby_sum ks vs df =
           Inr \<lparr>columns = map (\<lambda>k. (k, the (dtype_of df k))) ks @ map (\<lambda>v. (v, Number)) vs,
                rows = map (\<lambda>k. zip ks k @ map (\<lambda>v. (v, Num (group_sum ks (rows df) k v))) vs)
                         (group_keys ks (rows df))\<rparr>"
proof -
  have 1: "filter (\<lambda>c. c \<notin> set (labels df)) ks = []" using assms(2) by (auto simp: filter_empty_conv)
  have 2: "filter (\<lambda>c. c \<notin> set (labels df)) vs = []" using assms(2) by (auto simp: filter_empty_conv)
  have 3: "\<not> list_ex (\<lambda>c. dtype_of df c \<noteq> Some Number) vs" using assms(3) by (simp add: list_ex_iff)
  have 4: "\<not> list_ex (\<lambda>k. 1 < count_list (labels df) k) ks"
    using count_list_distinct [OF assms(1)] by (auto simp: list_ex_iff not_less)
  show ?thesis using 1 2 3 4 by (simp add: groupby_sum_def)
qed

lemma distinct_upd_col: "distinct (map fst cols) \<Longrightarrow> distinct (map fst (upd_col c t cols))"
  by (simp add: map_fst_upd_col)

lemma district_totals_ok:
  assumes "enrolment_schema df"
  shows "\<exists>df1 g. select_state state df = Inr df1 \<and> set (rows df1) \<subseteq> set (rows df)
           \<and> district_totals state df = Inr g \<and> (rows df1 = [] \<longrightarrow> rows g = [])"
proof -
  from assms have st: "''state'' \<in> set (labels df)" by (simp add: enrolment_schema_def)
  from select_state_ok [OF st, of state] obtain df1 where
    1: "select_state state df = Inr df1" "columns df1 = columns df" "set (rows df1) \<subseteq> set (rows df)"
    by blast
  have l1: "labels df1 = labels df" and d1: "dtype_of df1 = dtype_of df"
    using 1(2) by (simp_all add: labels_def dtype_of_def fun_eq_iff)
  let ?parts = "[''age_0_5'', ''age_5_17'', ''age_18_greater'']"
  have a: "set ?parts \<subseteq> set (labels df1)" "\<forall>c\<in>set ?parts. dtype_of df1 c = Some Number"
    using assms by (simp_all add: enrolment_schema_def l1 d1)
  define df2 where "df2 = \<lparr>columns = upd_col ''total'' Number (columns df1),
                rows = map (\<lambda>r. upd ''total'' (foldl add_cell (get r (hd ?parts))
                                                   (map (get r) (tl ?parts))) r) (rows df1)\<rparr>"
  have 2: "add_columns ''total'' ?parts df1 = Inr df2"
    unfolding df2_def by (rule add_columns_ok [OF a])
  have l2: "set (labels df2) = insert ''total'' (set (labels df))"
    by (simp add: df2_def labels_def labels_upd_col 1(2) del: set_map)
  have t2: "dtype_of df2 ''total'' = Some Number"
    by (simp add: df2_def dtype_of_def map_of_upd_col)
  have "distinct (labels df)" using assms by (simp add: enrolment_schema_def)
  then have d2: "distinct (labels df2)"
    by (simp add: df2_def labels_def 1(2) distinct_upd_col del: distinct_map)
  have g: "set ([''state'', ''district''] @ [''total'']) \<subseteq> set (labels df2)"
      "\<forall>c\<in>set [''total'']. dtype_of df2 c = Some Number"
    using assms by (simp_all add: l2 t2 enrolment_schema_def)
  have e: "rows df1 = [] \<Longrightarrow> group_keys [''state'', ''district''] (rows df2) = []"
    by (simp add: df2_def group_keys_def dropna_def)
  show ?thesis
    apply (rule exI [of _ df1])
    apply (simp add: 1 district_totals_def 2 groupby_sum_ok [OF d2 g])
    using e apply simp
    done
qed

lemma sort_contract_Nil: "sort_contract srt \<Longrightarrow> srt [] = []"
proof -
  assume "sort_contract srt"
  then have "mset (srt []) = mset []" unfolding sort_contract_def by blast
  then show ?thesis by simp
qed

lemma sort_contract_stable_desc: "sort_contract stable_desc"
proof -
  have "sorted_wrt (\<lambda>a b. total_of b \<le> total_of a) (stable_desc rs)" for rs
  proof -
    have "sorted (map total_of (sort_key total_of (rev rs)))" by simp
    then have "sorted_wrt (\<lambda>a b. total_of a \<le> total_of b) (sort_key total_of (rev rs))"
      by (simp add: sorted_map)
    then show ?thesis by (simp add: stable_desc_def sorted_wrt_rev)
  qed
  then show ?thesis by (simp add: sort_contract_def stable_desc_def)
qed


section \<open>Lemmas on grouped sums\<close>

lemma groupby_sum_rows:
  assumes "groupby_sum ks vs df = Inr g"
  shows "rows g = map (\<lambda>k. zip ks k @ map (\<lambda>v. (v, Num (group_sum ks (rows df) k v))) vs)
                       (group_keys ks (rows df))"
  using assms by (auto simp: groupby_sum_def split: list.splits if_splits)

lemma set_group_keys: "set (group_keys ks rs) = key_of ks ` set (dropna ks rs)"
  by (simp add: group_keys_def)

lemma distinct_group_keys: "distinct (group_keys ks rs)"
  by (simp add: group_keys_def)

lemma length_group_key: "k \<in> set (group_keys ks rs) \<Longrightarrow> length k = length ks"
  by (auto simp: set_group_keys key_of_def)

lemma map_of_zip_map:
  "distinct ks \<Longrightarrow> length k = length ks \<Longrightarrow> map (\<lambda>c. map_of (zip ks k) c) ks = map Some k"
  by (auto simp: list_eq_iff_nth_eq map_of_zip_nth)

lemma key_of_group_row:
  assumes "distinct ks" "length k = length ks"
  shows "key_of ks (zip ks k @ rest) = k"
proof -
  have "get (zip ks k @ rest) c = the (map_of (zip ks k) c)" if "c \<in> set ks" for c
  proof -
    from that assms(2) obtain v where "map_of (zip ks k) c = Some v"
      by (metis map_of_zip_is_Some not_Some_eq)
    then show ?thesis by (simp add: get_def map_add_def)
  qed
  then have "key_of ks (zip ks k @ rest) = map (\<lambda>c. the (map_of (zip ks k) c)) ks"
    by (simp add: key_of_def)
  also have "\<dots> = map the (map (\<lambda>c. map_of (zip ks k) c) ks)" by (simp add: comp_def)
  also have "\<dots> = k" by (simp add: map_of_zip_map [OF assms] comp_def)
  finally show ?thesis .
qed

lemma groupby_sum_keys:
  assumes "distinct ks" "groupby_sum ks vs df = Inr g"
  shows "map (key_of ks) (rows g) = group_keys ks (rows df)"
proof -
  have "map (key_of ks) (rows g) = map (\<lambda>k. k) (group_keys ks (rows df))"
    unfolding groupby_sum_rows [OF assms(2)] map_map comp_def
    by (rule map_cong [OF refl]) (simp add: key_of_group_row [OF assms(1)] length_group_key)
  then show ?thesis by simp
qed

lemma sum_groups:
  fixes f :: "'a \<Rightarrow> int"
  assumes "finite K" "key ` set rs \<subseteq> K"
  shows "(\<Sum>k\<in>K. sum_list (map f (filter (\<lambda>r. key r = k) rs))) = sum_list (map f rs)"
  using assms(2)
proof (induction rs)
  case Nil
  then show ?case by simp
next
  case (Cons r rs)
  have "(\<Sum>k\<in>K. sum_list (map f (filter (\<lambda>r. key r = k) (r # rs))))
      = (\<Sum>k\<in>K. (if k = key r then f r else 0) + sum_list (map f (filter (\<lambda>r. key r = k) rs)))"
    by (rule sum.cong) auto
  also have "\<dots> = (\<Sum>k\<in>K. (if k = key r then f r else 0)) + (\<Sum>k\<in>K. sum_list (map f (filter (\<lambda>r. key r = k) rs)))"
    by (simp add: sum.distrib)
  also have "(\<Sum>k\<in>K. (if k = key r then f r else (0::int))) = f r"
    using assms(1) Cons.prems by (simp add: sum.delta)
  finally show ?case using Cons by simp
qed

lemma sum_group_keys:
  "sum_list (map (\<lambda>k. group_sum ks rs k v) (group_keys ks rs))
     = sum_list (map (\<lambda>r. num_of (get r v)) (dropna ks rs))"
proof -
  have "sum_list (map (\<lambda>k. group_sum ks rs k v) (group_keys ks rs))
      = (\<Sum>k\<in>set (group_keys ks rs). group_sum ks rs k v)"
    by (simp add: sum_list_distinct_conv_sum_set distinct_group_keys)
  also have "\<dots> = sum_list (map (\<lambda>r. num_of (get r v)) (dropna ks rs))"
    unfolding group_sum_def
    by (rule sum_groups) (simp_all add: set_group_keys)
  finally show ?thesis .
qed

lemma get_value_group_row:
  assumes "v \<in> set vs" "v \<notin> set ks"
  shows "get (zip ks k @ map (\<lambda>v. (v, f v)) vs) v = f v"
proof -
  have "map_of (zip ks k) v = None" using assms(2)
    by (metis map_of_eq_None_iff set_zip_leftD surjective_pairing imageE)
  moreover have "map_of (map (\<lambda>v. (v, f v)) vs) v = Some (f v)"
    using assms(1) by (induction vs) auto
  ultimately show ?thesis by (simp add: get_def map_add_def)
qed

section \<open>Lemmas on loading\<close>

lemma labels_rename: "labels (rename_columns t) = map normalize (labels t)"
  by (simp add: rename_columns_def labels_def comp_def case_prod_unfold)

lemma count_le1: "distinct xs \<Longrightarrow> \<not> 1 < length (filter (\<lambda>l. l = c) xs)"
  by (induction xs) (auto simp: filter_empty_conv)

lemma load_file_Table:
  assumes "distinct (map normalize (labels t))"
  shows "load_file (Table t) =
           Inr \<lparr>columns = clean_columns (date_col (rename_columns t)) (columns t),
                rows = map (clean_row (date_col (rename_columns t))) (rows t)\<rparr>"
proof (cases "date_col (rename_columns t)")
  case None
  then show ?thesis
    by (simp add: load_file_def clean_columns_def clean_row_def rename_columns_def)
next
  case (Some c)
  have 1: "\<not> 1 < length (filter (\<lambda>l. l = c) (labels (rename_columns t)))"
    unfolding labels_rename by (rule count_le1 [OF assms])
  have 2: "map (\<lambda>(l, t). if l = c then (l, Datetime) else (l, t)) (columns (rename_columns t))
         = clean_columns (Some c) (columns t)"
    by (simp add: rename_columns_def clean_columns_def case_prod_unfold comp_def)
  have 4: "map (map (\<lambda>(l, v). if l = c then (l, to_datetime v) else (l, v))) (rows (rename_columns t))
         = map (clean_row (Some c)) (rows t)"
    by (simp add: rename_columns_def clean_row_def case_prod_unfold comp_def)
  show ?thesis
    using 1 by (simp add: load_file_def Some convert_date_def 2 4)
qed

lemma collect_loaded: "collect fs = concat (map loaded fs)"
proof (induction fs)
  case Nil
  then show ?case by simp
next
  case (Cons f fs)
  then show ?case by (cases "load_file f") simp_all
qed

lemma map_of_reindex:
  "map_of (reindex cols r) l =
     map_option (\<lambda>t. case map_of r l of Some v \<Rightarrow> v | None \<Rightarrow> if t = Datetime then NaT else NaN)
       (map_of cols l)"
proof (induction cols)
  case Nil
  then show ?case by (simp add: reindex_def)
next
  case (Cons a cols)
  then show ?case by (cases a) (simp add: reindex_def)
qed


lemma set_union_labels: "set (union_labels dfs) = (\<Union>df\<in>set dfs. set (labels df))"
  by (simp add: union_labels_def)

lemma concat_frames_ok:
  assumes "\<forall>df\<in>set dfs. distinct (labels df)"
  shows "concat_frames dfs =
           Inr \<lparr>columns = map (\<lambda>c. (c, concat_dtype dfs c)) (union_labels dfs),
                rows = map (reindex (map (\<lambda>c. (c, concat_dtype dfs c)) (union_labels dfs)))
                         (concat (map rows dfs))\<rparr>"
proof -
  have "\<not> list_ex (\<lambda>df. \<not> distinct (labels df)) dfs" using assms by (simp add: list_ex_iff)
  then show ?thesis by (simp add: concat_frames_def Let_def)
qed


lemma labels_clean_columns: "map fst (clean_columns dc cols) = map normalize (map fst cols)"
  by (simp add: clean_columns_def comp_def case_prod_unfold)


lemma loaded_Corrupt: "loaded Corrupt = []"
  by (simp add: load_file_def)

lemma loaded_Table:
  assumes "distinct (map normalize (labels t))"
  shows "loaded (Table t) =
           [\<lparr>columns = clean_columns (date_col (rename_columns t)) (columns t),
             rows = map (clean_row (date_col (rename_columns t))) (rows t)\<rparr>]"
  by (simp add: load_file_Table [OF assms])

lemma loaded_distinct:
  assumes "distinct_clean_names f" "d \<in> set (loaded f)"
  shows "distinct (labels d)"
proof (cases f)
  case Corrupt
  then show ?thesis using assms(2) by (simp add: loaded_Corrupt del: loaded.simps)
next
  case (Table t)
  then have "distinct (map normalize (labels t))" using assms(1) by simp
  from loaded_Table [OF this] assms(2) Table
  show ?thesis
    using \<open>distinct (map normalize (labels t))\<close>
    by (simp add: labels_def labels_clean_columns del: loaded.simps distinct_map)
qed

lemma length_file_rows:
  assumes "distinct_clean_names f"
  shows "length (file_rows f) = row_count f"
proof (cases f)
  case Corrupt
  then show ?thesis by (simp add: file_rows_def loaded_Corrupt del: loaded.simps)
next
  case (Table t)
  then have "distinct (map normalize (labels t))" using assms(1) by simp
  from loaded_Table [OF this] Table
  show ?thesis by (simp add: file_rows_def del: loaded.simps)
qed

lemma load_structure:
  assumes "\<forall>f\<in>set (glob_csv p). distinct_clean_names f"
  shows "load_df_from_folder p =
           (if collect (glob_csv p) = [] then Inr DataFrame
            else Inr \<lparr>columns = map (\<lambda>c. (c, concat_dtype (collect (glob_csv p)) c))
                                 (union_labels (collect (glob_csv p))),
                      rows = map (reindex (map (\<lambda>c. (c, concat_dtype (collect (glob_csv p)) c))
                                             (union_labels (collect (glob_csv p)))))
                               (concat (map rows (collect (glob_csv p))))\<rparr>)"
proof -
  have "\<forall>df\<in>set (collect (glob_csv p)). distinct (labels df)"
    using assms loaded_distinct by (auto simp: collect_loaded simp del: loaded.simps)
  from concat_frames_ok [OF this] show ?thesis
    by (simp add: load_df_from_folder_def Let_def)
qed

lemma rows_collect: "concat (map rows (collect fs)) = concat (map file_rows fs)"
  by (induction fs) (simp_all add: collect_loaded file_rows_def del: loaded.simps)

lemma reindex_keeps:
  assumes "map_of r l = Some v" "l \<in> set (map fst cols)"
  shows "map_of (reindex cols r) l = Some v"
proof -
  from assms(2) obtain t where "map_of cols l = Some t"
    by (metis map_of_eq_None_iff not_Some_eq set_map)
  then show ?thesis using assms(1) by (simp add: map_of_reindex)
qed

text \<open>
  When the clean column names of every parsed file are pairwise distinct, loading
  returns: the data set holds the rows of the parsed files, in file order, each aligned
  to the union of the columns with its own fields unchanged, and a file that cannot be
  read contributes nothing.
\<close>

lemma load_distinct_names:
  assumes "\<forall>f\<in>set (glob_csv p). distinct_clean_names f"
  shows "\<exists>df. load_df_from_folder p = Inr df
           \<and> rows df = map (reindex (columns df)) (concat (map file_rows (glob_csv p)))
           \<and> length (rows df) = sum_list (map row_count (glob_csv p))
           \<and> file_rows Corrupt = []
           \<and> (\<forall>f\<in>set (glob_csv p). \<forall>d\<in>set (loaded f). set (labels d) \<subseteq> set (labels df))
           \<and> (\<forall>r l v. map_of r l = Some v \<and> l \<in> set (labels df)
                 \<longrightarrow> map_of (reindex (columns df) r) l = Some v)"
proof -
  let ?fs = "glob_csv p"
  let ?dfs = "collect ?fs"
  let ?cols = "map (\<lambda>c. (c, concat_dtype ?dfs c)) (union_labels ?dfs)"
  define df where "df = (if ?dfs = [] then DataFrame
                         else \<lparr>columns = ?cols, rows = map (reindex ?cols) (concat (map rows ?dfs))\<rparr>)"
  have 1: "load_df_from_folder p = Inr df"
    by (simp add: load_structure [OF assms] df_def)
  have e: "concat (map rows ?dfs) = []" if "?dfs = []" using that by simp
  have 2: "rows df = map (reindex (columns df)) (concat (map file_rows ?fs))"
    using e by (auto simp: df_def DataFrame_def rows_collect [symmetric])
  have "length (concat (map file_rows ?fs)) = sum_list (map row_count ?fs)"
    using assms by (simp add: length_concat comp_def length_file_rows cong: map_cong)
  then have 3: "length (rows df) = sum_list (map row_count ?fs)" by (simp add: 2)
  have 4: "file_rows Corrupt = []" by (simp add: file_rows_def loaded_Corrupt del: loaded.simps)
  have 5: "\<forall>f\<in>set ?fs. \<forall>d\<in>set (loaded f). set (labels d) \<subseteq> set (labels df)"
  proof (intro ballI)
    fix f d assume "f \<in> set ?fs" "d \<in> set (loaded f)"
    then have d: "d \<in> set ?dfs" by (auto simp: collect_loaded simp del: loaded.simps)
    then have "?dfs \<noteq> []" by auto
    then have "labels df = union_labels ?dfs" by (simp add: df_def labels_def comp_def)
    then show "set (labels d) \<subseteq> set (labels df)" using d by (auto simp: set_union_labels)
  qed
  have 6: "\<forall>r l v. map_of r l = Some v \<and> l \<in> set (labels df)
                 \<longrightarrow> map_of (reindex (columns df) r) l = Some v"
    using reindex_keeps by (simp add: labels_def)
  show ?thesis using 1 2 3 4 5 6 by blast
qed

lemma load_mixed_folder:
  "\<exists>df. load_df_from_folder mixed_folder = Inr df
      \<and> length (rows df) = 4
      \<and> file_rows Corrupt = []"
proof -
  have h: "\<forall>f\<in>set (glob_csv mixed_folder). distinct_clean_names f" by code_simp
  have n: "sum_list (map row_count (glob_csv mixed_folder)) = 4" by code_simp
  show ?thesis
    using load_distinct_names [OF h] n by auto
qed

lemma distinct_clean_names_admissible: "admissible f \<Longrightarrow> distinct_clean_names f"
  by (cases f) (simp_all add: well_formed_def)








section \<open>Lemmas on coverage\<close>

lemma coverage_pct_cases:
  "cov_coverage_pct (coverage (s, e, b)) =
     (if e \<noteq> 0 then Finite (of_int b / of_int e * 100)
      else if 0 < b then PosInf else if b < 0 then NegInf else NotANumber)"
  by (simp add: coverage_def true_divide_def)

section \<open>Results on normalization\<close>

text \<open>
  C8 (as amended). Normalization is idempotent, and two raw names that differ only in
  letter case and in surrounding whitespace have the same clean name: padding a name
  with whitespace on either side and changing the case of its letters does not change
  the result.
\<close>

theorem normalize_idempotent_case_padding:
  "normalize (normalize s) = normalize s \<and>
   (list_all is_space p1 \<and> list_all is_space q1 \<and> list_all is_space p2 \<and>
    list_all is_space q2 \<and> lower x = lower y
    \<longrightarrow> normalize (p1 @ x @ q1) = normalize (p2 @ y @ q2))"
  using normalize_idem normalize_pad by blast

theorem normalize_idempotent_case_padding_witness:
  "normalize (normalize ''  State Name '') = normalize ''  State Name '' \<and>
   normalize ('' '' @ ''State'' @ ''  '') = normalize ([] @ ''sTATE'' @ [])"
proof -
  have 1: "list_all is_space '' ''" "list_all is_space ''  ''" "list_all is_space []"
    by (simp_all add: is_space_def)
  have 2: "lower ''State'' = lower ''sTATE''"
    by code_simp
  show ?thesis
    using normalize_idempotent_case_padding [of "''  State Name ''" "'' ''" "''  ''" "[]" "[]" "''State''" "''sTATE''"] 1 2
    by blast
qed

text \<open>
  C8 (as stated) fails: "State Name" and "State  Name" differ only in the amount of
  interior whitespace, and their clean names differ.
\<close>

theorem normalize_whitespace_counterexample:
  "same_up_to_case_ws ''State Name'' ''State  Name'' \<and>
   normalize ''State Name'' \<noteq> normalize ''State  Name''"
  by (simp add: same_up_to_case_ws_def normalize_def strip_def lower_def replace_space_def
      is_space_def lower_char_def)

section \<open>Results on the queries\<close>

text \<open>
  C9. When the data sets are empty, the four queries return without an error:
  \<open>get_stats\<close> gives zero for every total, \<open>get_state_summary\<close> gives the empty summary,
  \<open>get_trends\<close> and \<open>get_district_rankings\<close> give the empty list, for every state
  filter and every sorting routine.
\<close>

theorem empty_dataset_queries:
  assumes "empty e" "empty d" "empty b"
  shows "get_stats e d b = Inr \<lparr>enrolment_total_records = int (length (rows e)),
            age_0_5_total = 0, age_5_17_total = 0, age_18_greater_total = 0,
            demographic_total_records = int (length (rows d)), demo_age_5_17_total = 0,
            biometric_total_records = int (length (rows b)), bio_age_5_17_total = 0\<rparr>
       \<and> get_state_summary e b = Inr \<lparr>enrolment = None, biometric = None\<rparr>
       \<and> get_trends e = Inr []
       \<and> get_district_rankings srt state e = Inr []"
  using assms
  by (simp add: get_stats_def guarded_sum_def get_state_summary_def get_trends_def
      get_district_rankings_def)

theorem empty_dataset_queries_witness: "get_stats DataFrame DataFrame DataFrame = Inr \<lparr>enrolment_total_records = 0,
            age_0_5_total = 0, age_5_17_total = 0, age_18_greater_total = 0,
            demographic_total_records = 0, demo_age_5_17_total = 0,
            biometric_total_records = 0, bio_age_5_17_total = 0\<rparr>
       \<and> get_state_summary DataFrame DataFrame = Inr \<lparr>enrolment = None, biometric = None\<rparr>
       \<and> get_trends DataFrame = Inr []
       \<and> get_district_rankings id (Some ''X'') DataFrame = Inr []"
proof -
  have e: "empty DataFrame" by (simp add: empty_def DataFrame_def)
  show ?thesis using empty_dataset_queries [OF e e e, of id "Some ''X''"] by (simp add: DataFrame_def)
qed

text \<open>
  C10 (as amended). For every enrolment data set (pairwise distinct labels, the state,
  district and numeric age columns present), every sorting routine that meets the
  library's contract and every state filter, the rankings query returns at most 20 rows
  and no error; with a non-empty filter text that matches no row it returns the empty
  list and no error; and the empty filter text is treated as no filter: the query
  returns what it returns without a filter.
\<close>

theorem district_rankings_bounded:
  assumes "enrolment_schema df" "sort_contract srt"
  shows "(\<exists>rs. get_district_rankings srt state df = Inr rs \<and> length rs \<le> 20)
       \<and> (s \<noteq> [] \<and> (\<forall>r\<in>set (rows df). get r ''state'' \<noteq> Txt s)
            \<longrightarrow> get_district_rankings srt (Some s) df = Inr [])
       \<and> get_district_rankings srt (Some []) df = get_district_rankings srt None df"
proof (intro conjI)
  from district_totals_ok [OF assms(1), of state] obtain g where
    "district_totals state df = Inr g" by blast
  then show "\<exists>rs. get_district_rankings srt state df = Inr rs \<and> length rs \<le> 20"
    by (simp add: get_district_rankings_def)
next
  show "s \<noteq> [] \<and> (\<forall>r\<in>set (rows df). get r ''state'' \<noteq> Txt s)
            \<longrightarrow> get_district_rankings srt (Some s) df = Inr []"
  proof
    assume h: "s \<noteq> [] \<and> (\<forall>r\<in>set (rows df). get r ''state'' \<noteq> Txt s)"
    from district_totals_ok [OF assms(1), of "Some s"] obtain df1 g where
      1: "select_state (Some s) df = Inr df1" "district_totals (Some s) df = Inr g"
         "rows df1 = [] \<longrightarrow> rows g = []" by blast
    from assms(1) have st: "''state'' \<in> set (labels df)" by (simp add: enrolment_schema_def)
    have "rows df1 = []" using 1(1) h st
      by (auto simp: select_state_def filter_empty_conv split: if_splits)
    then have "rows g = []" using 1(3) by simp
    then show "get_district_rankings srt (Some s) df = Inr []"
      using 1(2) sort_contract_Nil [OF assms(2)] by (simp add: get_district_rankings_def)
  qed
next
  show "get_district_rankings srt (Some []) df = get_district_rankings srt None df"
    by (simp add: get_district_rankings_def district_totals_def select_state_def)
qed

theorem district_rankings_bounded_witness:
  "(\<exists>rs. get_district_rankings stable_desc (Some ''Q'') two_districts = Inr rs \<and> length rs \<le> 20)
   \<and> get_district_rankings stable_desc (Some ''Q'') two_districts = Inr []
   \<and> get_district_rankings stable_desc (Some []) two_districts
       = get_district_rankings stable_desc None two_districts"
proof -
  have 1: "enrolment_schema two_districts" by code_simp
  have 2: "''Q'' \<noteq> [] \<and> (\<forall>r\<in>set (rows two_districts). get r ''state'' \<noteq> Txt ''Q'')"
    by (simp add: two_districts_def enrol_row_def get_def)
  show ?thesis
    using district_rankings_bounded [OF 1 sort_contract_stable_desc, of "Some ''Q''" "''Q''"] 2
    by blast
qed

text \<open>
  C10 (as stated) fails for the empty filter text: no row has the empty text as its
  state, yet the query treats the filter as absent and returns the ranking of all rows.
\<close>

theorem district_rankings_empty_filter_counterexample:
  "list_all (\<lambda>r. get r ''state'' \<noteq> Txt []) (rows two_districts)
   \<and> get_district_rankings stable_desc (Some []) two_districts =
       Inr [[(''state'', Txt ''X''), (''district'', Txt ''A''), (''total'', Num 35)],
            [(''state'', Txt ''X''), (''district'', Txt ''B''), (''total'', Num 6)]]"
  by code_simp

section \<open>Results on grouped sums\<close>

text \<open>
  C2 (as amended). For every data set with pairwise distinct labels and every choice of
  distinct key columns and numeric value columns among them, grouped summation returns
  without an error and leaves out the rows that have a missing value in a key column:
  the key tuples of the output rows are exactly the key tuples of the input rows whose
  key values are all present, each once, and no output row has a missing key value.
  For a non-empty data set on which the by-date trends query returns, the number of rows
  it returns is the number of distinct dates among the rows whose date is present.
\<close>

theorem groupby_leaves_out_missing_keys:
  assumes "distinct (labels df)" "distinct ks" "set (ks @ vs) \<subseteq> set (labels df)"
    and "\<forall>c\<in>set vs. dtype_of df c = Some Number"
  shows "(\<exists>g. groupby_sum ks vs df = Inr g
            \<and> set (map (key_of ks) (rows g))
                = key_of ks ` {r \<in> set (rows df). \<not> list_ex isna (key_of ks r)}
            \<and> distinct (map (key_of ks) (rows g))
            \<and> (\<forall>r\<in>set (rows g). \<not> list_ex isna (key_of ks r)))
       \<and> (\<not> empty df \<and> get_trends df = Inr out
            \<longrightarrow> length out
                = card ((\<lambda>r. get r ''date'') ` {r \<in> set (rows df). \<not> isna (get r ''date'')}))"
proof
  obtain g where g: "groupby_sum ks vs df = Inr g"
    using groupby_sum_ok [OF assms(1,3,4)] by blast
  have k: "map (key_of ks) (rows g) = group_keys ks (rows df)"
    by (rule groupby_sum_keys [OF assms(2) g])
  have s: "set (dropna ks (rows df)) = {r \<in> set (rows df). \<not> list_ex isna (key_of ks r)}"
    by (simp add: dropna_def)
  have "\<forall>r\<in>set (rows g). key_of ks r \<in> key_of ks ` set (dropna ks (rows df))"
    using k set_group_keys [of ks "rows df"] by (metis image_eqI set_map)
  then have n: "\<forall>r\<in>set (rows g). \<not> list_ex isna (key_of ks r)" by (auto simp: s)
  have "set (map (key_of ks) (rows g))
          = key_of ks ` {r \<in> set (rows df). \<not> list_ex isna (key_of ks r)}
        \<and> distinct (map (key_of ks) (rows g))"
    by (simp only: k set_group_keys distinct_group_keys s)
  then show "\<exists>g. groupby_sum ks vs df = Inr g
            \<and> set (map (key_of ks) (rows g))
                = key_of ks ` {r \<in> set (rows df). \<not> list_ex isna (key_of ks r)}
            \<and> distinct (map (key_of ks) (rows g))
            \<and> (\<forall>r\<in>set (rows g). \<not> list_ex isna (key_of ks r))"
    using g n by blast
next
  show "\<not> empty df \<and> get_trends df = Inr out
            \<longrightarrow> length out
                = card ((\<lambda>r. get r ''date'') ` {r \<in> set (rows df). \<not> isna (get r ''date'')})"
  proof
    assume h: "\<not> empty df \<and> get_trends df = Inr out"
    then obtain trend where
      t: "groupby_sum [''date''] [''age_0_5'', ''age_5_17'', ''age_18_greater''] df = Inr trend"
      and o: "out = map (\<lambda>r. upd ''date'' (strftime (get r ''date'')) r) (rows trend)"
      by (auto simp: get_trends_def bind_def split: sum.splits if_splits)
    have "length out = length (group_keys [''date''] (rows df))"
      by (simp add: o groupby_sum_rows [OF t])
    also have "\<dots> = card (set (group_keys [''date''] (rows df)))"
      by (simp add: distinct_card distinct_group_keys)
    also have "set (group_keys [''date''] (rows df))
          = (\<lambda>c. [c]) ` (\<lambda>r. get r ''date'') ` {r \<in> set (rows df). \<not> isna (get r ''date'')}"
      by (auto simp: set_group_keys dropna_def key_of_def)
    also have "card \<dots> = card ((\<lambda>r. get r ''date'') ` {r \<in> set (rows df). \<not> isna (get r ''date'')})"
      by (rule card_image) (simp add: inj_on_def)
    finally show "length out
        = card ((\<lambda>r. get r ''date'') ` {r \<in> set (rows df). \<not> isna (get r ''date'')})" .
  qed
qed

theorem groupby_leaves_out_missing_keys_witness:
  "(\<exists>g. groupby_sum [''date''] [''age_0_5'', ''age_5_17'', ''age_18_greater''] missing_keys = Inr g
        \<and> set (map (key_of [''date'']) (rows g)) = {[Date 2024 3 1]}
        \<and> distinct (map (key_of [''date'']) (rows g))
        \<and> (\<forall>r\<in>set (rows g). \<not> list_ex isna (key_of [''date''] r)))
   \<and> length [[(''date'', Txt ''2024-03-01''), (''age_0_5'', Num 3), (''age_5_17'', Num 2),
                (''age_18_greater'', Num 1)]] = (1::nat)"
proof -
  have 1: "distinct (labels missing_keys)" "distinct [''date'']"
      "set ([''date''] @ [''age_0_5'', ''age_5_17'', ''age_18_greater'']) \<subseteq> set (labels missing_keys)"
      "\<forall>c\<in>set [''age_0_5'', ''age_5_17'', ''age_18_greater'']. dtype_of missing_keys c = Some Number"
    by (simp_all add: missing_keys_def enrol_columns_def labels_def dtype_of_def)
  have "key_of [''date''] ` set (filter (\<lambda>r. \<not> list_ex isna (key_of [''date''] r)) (rows missing_keys))
             = {[Date 2024 3 1]}"
    by code_simp
  then have 2: "key_of [''date''] ` {r \<in> set (rows missing_keys). \<not> list_ex isna (key_of [''date''] r)}
             = {[Date 2024 3 1]}"
    by simp
  have 3: "\<not> empty missing_keys
         \<and> get_trends missing_keys = Inr [[(''date'', Txt ''2024-03-01''), (''age_0_5'', Num 3),
               (''age_5_17'', Num 2), (''age_18_greater'', Num 1)]]"
    by code_simp
  show ?thesis
    using groupby_leaves_out_missing_keys [OF 1, of "[[(''date'', Txt ''2024-03-01''), (''age_0_5'', Num 3),
               (''age_5_17'', Num 2), (''age_18_greater'', Num 1)]]"] 2 3
    by simp
qed

text \<open>
  C2 (as stated) fails: the data set \<open>missing_keys\<close> has two rows, the first with a date
  that did not parse (\<open>NaT\<close>); the by-date trends hold one group, for the date of the
  second row, with the counts of the second row only.
\<close>

theorem trends_missing_date_counterexample:
  "length (rows missing_keys) = 2
   \<and> get (rows missing_keys ! 0) ''date'' = NaT
   \<and> get_trends missing_keys =
       Inr [[(''date'', Txt ''2024-03-01''), (''age_0_5'', Num 3), (''age_5_17'', Num 2),
             (''age_18_greater'', Num 1)]]"
  by code_simp

text \<open>
  C7 (as amended). For every data set with pairwise distinct labels, every choice of
  distinct key columns and numeric value columns among them, and every value column
  that is not a key column, grouped summation returns without an error, the sum of the
  value column over the output rows equals its sum over the input rows whose key
  values are all present (and so its sum over all input rows when no key value is
  missing), and the number of output rows is at most the number of distinct key tuples
  in the input.
\<close>

theorem groupby_conservation:
  assumes "distinct (labels df)" "distinct ks" "set (ks @ vs) \<subseteq> set (labels df)"
    and "\<forall>c\<in>set vs. dtype_of df c = Some Number"
    and "v \<in> set vs" "v \<notin> set ks"
  shows "\<exists>g. groupby_sum ks vs df = Inr g
           \<and> sum_list (map (\<lambda>r. num_of (get r v)) (rows g))
               = sum_list (map (\<lambda>r. num_of (get r v))
                    (filter (\<lambda>r. \<not> list_ex isna (key_of ks r)) (rows df)))
           \<and> length (rows g) \<le> card (key_of ks ` set (rows df))
           \<and> ((\<forall>r\<in>set (rows df). \<not> list_ex isna (key_of ks r))
                \<longrightarrow> sum_list (map (\<lambda>r. num_of (get r v)) (rows g))
                    = sum_list (map (\<lambda>r. num_of (get r v)) (rows df)))"
proof -
  obtain g where g: "groupby_sum ks vs df = Inr g"
    using groupby_sum_ok [OF assms(1,3,4)] by blast
  have "map (\<lambda>r. num_of (get r v)) (rows g)
      = map (\<lambda>k. group_sum ks (rows df) k v) (group_keys ks (rows df))"
    unfolding groupby_sum_rows [OF g] map_map comp_def
    by (rule map_cong [OF refl])
       (simp add: get_value_group_row [OF assms(5,6), where f = "\<lambda>v. Num (group_sum ks (rows df) _ v)"])
  then have 1: "sum_list (map (\<lambda>r. num_of (get r v)) (rows g))
           = sum_list (map (\<lambda>r. num_of (get r v))
               (filter (\<lambda>r. \<not> list_ex isna (key_of ks r)) (rows df)))"
    by (simp add: sum_group_keys) (simp add: dropna_def)
  have "length (rows g) = length (group_keys ks (rows df))"
    by (simp add: groupby_sum_rows [OF g])
  also have "\<dots> = card (set (group_keys ks (rows df)))"
    by (simp add: distinct_card distinct_group_keys)
  also have "\<dots> \<le> card (key_of ks ` set (rows df))"
    unfolding set_group_keys by (rule card_mono) (auto simp: dropna_def)
  finally have 2: "length (rows g) \<le> card (key_of ks ` set (rows df))" .
  have 3: "filter (\<lambda>r. \<not> list_ex isna (key_of ks r)) (rows df) = rows df"
    if "\<forall>r\<in>set (rows df). \<not> list_ex isna (key_of ks r)"
    using that by simp
  show ?thesis using g 1 2 3 by simp
qed

theorem groupby_conservation_witness:
  "\<exists>g. groupby_sum [''state''] [''age_0_5'', ''age_5_17'', ''age_18_greater''] two_districts = Inr g
      \<and> sum_list (map (\<lambda>r. num_of (get r ''age_0_5'')) (rows g)) = 13
      \<and> length (rows g) \<le> 1"
proof -
  have 1: "distinct (labels two_districts)" "distinct [''state'']"
      "set ([''state''] @ [''age_0_5'', ''age_5_17'', ''age_18_greater'']) \<subseteq> set (labels two_districts)"
      "\<forall>c\<in>set [''age_0_5'', ''age_5_17'', ''age_18_greater'']. dtype_of two_districts c = Some Number"
      "''age_0_5'' \<in> set [''age_0_5'', ''age_5_17'', ''age_18_greater'']" "''age_0_5'' \<notin> set [''state'']"
    by (simp_all add: two_districts_def enrol_columns_def labels_def dtype_of_def)
  have 2: "sum_list (map (\<lambda>r. num_of (get r ''age_0_5''))
             (filter (\<lambda>r. \<not> list_ex isna (key_of [''state''] r)) (rows two_districts))) = 13"
    by code_simp
  have 3: "card (key_of [''state''] ` set (rows two_districts)) = 1"
    by code_simp
  show ?thesis
    using groupby_conservation [OF 1] 2 3 by simp blast
qed

text \<open>
  C7 (as stated) fails: in the data set \<open>missing_keys\<close> the first row has no state; the
  column \<open>age_0_5\<close> sums to 8 over the input rows and to 3 over the rows of the state
  summary.
\<close>

theorem state_summary_conservation_counterexample:
  "col_sum missing_keys ''age_0_5'' = Inr 8
   \<and> get_state_summary missing_keys DataFrame =
       Inr \<lparr>enrolment = Some [[(''state'', Txt ''X''), (''age_0_5'', Num 3), (''age_5_17'', Num 2),
                                (''age_18_greater'', Num 1), (''total_enrolment'', Num 6)]],
            biometric = None\<rparr>"
  by code_simp




section \<open>Results on loading\<close>




text \<open>
  C6. Loading does not always return: \<open>pd.concat\<close> runs after the loop, outside the
  \<open>try\<close>. The folder \<open>colliding_folder\<close> holds two files that are both read; the headers
  "State" and "state" of the first have the same clean name and the second file has
  other columns, so the frames cannot be aligned and the load raises.
\<close>

theorem load_colliding_names_raises:
  "load_df_from_folder colliding_folder = Inl InvalidIndexError"
  by code_simp



section \<open>Results on coverage\<close>

text \<open>
  C1. The coverage percentage is not guarded against a zero enrolment total. In
  \<open>no_enrolments\<close> the state X has enrolment rows with all counts zero and
  \<open>some_biometrics\<close> has 5 biometric captures for X: the coverage of X is positive
  infinity, not an undefined marker. For the state Y, with 100 enrolments and 80
  captures, the pending count is 20 and the coverage is 80.
\<close>

theorem coverage_zero_enrolment_infinite:
  "biometric_performance no_enrolments some_biometrics =
     Inr (Some [\<lparr>cov_state = Txt ''X'', cov_total_enrolment = 0, cov_total_biometric = 5,
                  cov_pending_biometrics = - 5, cov_coverage_pct = PosInf\<rparr>,
                \<lparr>cov_state = Txt ''Y'', cov_total_enrolment = 100, cov_total_biometric = 80,
                  cov_pending_biometrics = 20, cov_coverage_pct = Finite 80\<rparr>])"
  by code_simp

end
